theory Spec2Isabelle
  imports Main "HOL-Library.Multiset"
begin

section \<open>pytimelog: the time-entry log and its daily summary\<close>

text \<open>
  The embedding follows \<^verbatim>\<open>src/pytimelog/ui.py\<close>.

  \<^item> An instant (a timezone-aware \<^verbatim>\<open>datetime\<close>, compared in UTC) is an \<^typ>\<open>int\<close>: the
    number of seconds since the epoch. \<^verbatim>\<open>local_now\<close> drops the microseconds
    (\<^verbatim>\<open>replace(microsecond=0)\<close>), so every instant the program creates is a whole second.
  \<^item> A \<^verbatim>\<open>timedelta\<close> between such instants is an \<^typ>\<open>int\<close> number of seconds (it may
    be negative). The constants of the source are \<^verbatim>\<open>timedelta(minutes=1)\<close> = 60,
    \<^verbatim>\<open>timedelta(hours=8)\<close> = 28800 and \<^verbatim>\<open>timedelta(0)\<close> = 0.
  \<^item> The two formatters accept any \<^verbatim>\<open>timedelta\<close>, which Python keeps to the microsecond,
    and read it through the float \<^verbatim>\<open>delta.total_seconds()\<close>. Their argument is the
    \<^typ>\<open>int\<close> number of microseconds of the duration, and the float is modelled
    exactly (section on formatting).
  \<^item> A Python \<^verbatim>\<open>str\<close> whose content matters character by character (the description
    typed by the user) is the list of its Unicode code points; the ASCII texts the
    formatters build are of type \<^typ>\<open>string\<close>.
\<close>

type_synonym instant = int
type_synonym timedelta = int
type_synonym pystr = "nat list"

subsection \<open>Entries and the persisted log\<close>

text \<open>
  \<^verbatim>\<open>Entry(start=..., end=..., text=...)\<close>; \<^verbatim>\<open>end\<close> is \<^verbatim>\<open>None\<close> while the entry
  is open. The fields \<^verbatim>\<open>end\<close> and \<^verbatim>\<open>text\<close> are written \<open>end'\<close> and \<open>text'\<close>
  (both words are reserved).
\<close>

record entry =
  start :: instant
  end' :: "instant option"
  text' :: pystr

text \<open>
  Modelled from the spec: \<^verbatim>\<open>Entry.duration\<close> lives in \<^verbatim>\<open>storage.py\<close>, which is not
  among the sources. The spec: \<^emph>\<open>duration(reference_instant) = (end or reference_instant) - start\<close>.
\<close>

definition duration :: "entry \<Rightarrow> instant \<Rightarrow> timedelta" where
  "duration e now = (case end' e of None \<Rightarrow> now | Some t \<Rightarrow> t) - start e"

text \<open>
  Modelled from the spec: \<^verbatim>\<open>find_open\<close> lives in \<^verbatim>\<open>storage.py\<close>. The spec: it
  \<^emph>\<open>returns the position of the entry whose end is absent, scanning in order; returns
  absent if none\<close>; with several open entries \<^emph>\<open>the first encountered is returned\<close>.
\<close>

fun find_open_from :: "nat \<Rightarrow> entry list \<Rightarrow> nat option" where
  "find_open_from i [] = None"
| "find_open_from i (e # es) = (if end' e = None then Some i else find_open_from (Suc i) es)"

definition find_open :: "entry list \<Rightarrow> nat option" where
  "find_open entries = find_open_from 0 entries"

text \<open>
  Modelled from the spec: \<^verbatim>\<open>read_entries\<close>, \<^verbatim>\<open>append_entry\<close> and \<^verbatim>\<open>write_entries\<close>
  live in \<^verbatim>\<open>storage.py\<close>. The persisted state is the ordered entry sequence and nothing
  else; \<^emph>\<open>load() after append(e) returns the previous sequence with e appended\<close>, and
  \<^emph>\<open>replace_all\<close> rewrites the whole sequence. The store is passed explicitly.
\<close>

type_synonym store = "entry list"

definition read_entries :: "store \<Rightarrow> entry list" where
  "read_entries s = s"

definition append_entry :: "entry \<Rightarrow> store \<Rightarrow> store" where
  "append_entry e s = s @ [e]"

definition write_entries :: "entry list \<Rightarrow> store \<Rightarrow> store" where
  "write_entries entries s = entries"

subsection \<open>The description typed by the user\<close>

text \<open>
  \<^verbatim>\<open>str.strip()\<close> without an argument removes the leading and the trailing characters for
  which \<^verbatim>\<open>str.isspace\<close> holds. These are the code points Python classifies as whitespace:
  U+0009 to U+000D, U+001C to U+0020, U+0085, U+00A0, U+1680, U+2000 to U+200A, U+2028,
  U+2029, U+202F, U+205F and U+3000.
\<close>

definition py_isspace :: "nat \<Rightarrow> bool" where
  "py_isspace c =
     ((9 \<le> c \<and> c \<le> 13) \<or> (28 \<le> c \<and> c \<le> 32) \<or> c = 133 \<or> c = 160 \<or> c = 5760
      \<or> (8192 \<le> c \<and> c \<le> 8202) \<or> c = 8232 \<or> c = 8233 \<or> c = 8239 \<or> c = 8287
      \<or> c = 12288)"

definition py_strip :: "pystr \<Rightarrow> pystr" where
  "py_strip s = rev (dropWhile py_isspace (rev (dropWhile py_isspace s)))"

subsection \<open>The start and stop commands\<close>

text \<open>
  A command that is refused shows a message box and returns. The three refusals of the
  source, under the names the spec gives them:
  \<^item> \<open>EmptyDescription\<close>: \<^verbatim>\<open>showwarning("pytimelog", "Please enter a description.")\<close>;
  \<^item> \<open>AlreadyRunning\<close>: \<^verbatim>\<open>showwarning("pytimelog", "An entry is already running.")\<close>;
  \<^item> \<open>NothingRunning\<close>: \<^verbatim>\<open>showinfo("pytimelog", "No active entry to stop.")\<close>.
\<close>

datatype rejection = EmptyDescription | AlreadyRunning | NothingRunning

text \<open>
  \<^verbatim>\<open>
  def start_entry(self):
      text = self.entry_text.get().strip()
      if not text:
          messagebox.showwarning("pytimelog", "Please enter a description.")
          return
      entries = read_entries()
      if find_open(entries) is not None:
          messagebox.showwarning("pytimelog", "An entry is already running.")
          return
      start = to_utc(local_now())
      append_entry(Entry(start=start, end=None, text=text))
      self.entry_text.delete(0, tk.END)
      self.refresh()
  \<close>
  The content of the text field (\<open>typed\<close>) and the reading of the clock (\<open>clock\<close>, the
  value of \<^verbatim>\<open>to_utc(local_now())\<close>) are parameters. The result is the refusal, if any, and
  the persisted log after the command. Clearing the text field and \<^verbatim>\<open>refresh\<close>, which
  reads the log and redraws the labels, do not touch the log.
\<close>

definition start_entry :: "pystr \<Rightarrow> instant \<Rightarrow> store \<Rightarrow> rejection option \<times> store" where
  "start_entry typed clock s =
     (let txt = py_strip typed in
      if txt = [] then (Some EmptyDescription, s)
      else
        let entries = read_entries s in
        if find_open entries \<noteq> None then (Some AlreadyRunning, s)
        else
          let start_utc = clock in
          (None, append_entry \<lparr>start = start_utc, end' = None, text' = txt\<rparr> s))"

text \<open>
  \<^verbatim>\<open>
  def stop_entry(self):
      entries = read_entries()
      idx = find_open(entries)
      if idx is None:
          messagebox.showinfo("pytimelog", "No active entry to stop.")
          return
      now = to_utc(local_now())
      open_entry = entries[idx]
      if now <= open_entry.start:
          now = open_entry.start + timedelta(minutes=1)
      entries[idx] = Entry(start=open_entry.start, end=now, text=open_entry.text)
      write_entries(entries)
      self.refresh()
  \<close>
  \<open>find_open\<close> only returns positions of the list (\<open>find_open_in_range\<close> below), so the
  read \<^verbatim>\<open>entries[idx]\<close> and the assignment to \<^verbatim>\<open>entries[idx]\<close> are in range.
\<close>

definition stop_entry :: "instant \<Rightarrow> store \<Rightarrow> rejection option \<times> store" where
  "stop_entry clock s =
     (let entries = read_entries s in
      case find_open entries of
        None \<Rightarrow> (Some NothingRunning, s)
      | Some idx \<Rightarrow>
          let now = clock;
              open_entry = entries ! idx;
              now = (if now \<le> start open_entry then start open_entry + 60 else now);
              entries = entries[idx := \<lparr>start = start open_entry, end' = Some now,
                                        text' = text' open_entry\<rparr>]
          in (None, write_entries entries s))"

text \<open>
  A session is a sequence of commands, each with the inputs it reads; a refused command
  leaves the log as it was.
\<close>

datatype command = Start pystr instant | Stop instant

fun exec :: "command \<Rightarrow> store \<Rightarrow> store" where
  "exec (Start typed clock) s = snd (start_entry typed clock s)"
| "exec (Stop clock) s = snd (stop_entry clock s)"

definition run :: "command list \<Rightarrow> store \<Rightarrow> store" where
  "run cmds s = fold exec cmds s"

fun is_start :: "command \<Rightarrow> bool" where
  "is_start (Start typed clock) = True"
| "is_start (Stop clock) = False"

text \<open>Start and stop commands issued strictly alternately.\<close>

fun alternating :: "command list \<Rightarrow> bool" where
  "alternating [] = True"
| "alternating [c] = True"
| "alternating (c # d # cs) = (is_start c \<noteq> is_start d \<and> alternating (d # cs))"

text \<open>The positions at which \<open>find_open\<close> could match: the entries with an absent end.\<close>

definition open_indices :: "entry list \<Rightarrow> nat list" where
  "open_indices entries = filter (\<lambda>i. end' (entries ! i) = None) [0..<length entries]"

subsection \<open>Formatting durations\<close>

text \<open>
  \<^verbatim>\<open>str(n)\<close> of a non-negative integer: its decimal digits, most significant first.
\<close>

definition digit_char :: "nat \<Rightarrow> char" where
  "digit_char k = ''0123456789'' ! (k mod 10)"

fun dec_digits :: "nat \<Rightarrow> string" where
  "dec_digits n = (if n < 10 then [digit_char n] else dec_digits (n div 10) @ [digit_char n])"

declare dec_digits.simps [simp del]

text \<open>
  The replacement field \<^verbatim>\<open>{n}\<close> of an f-string renders an integer as \<^verbatim>\<open>str(n)\<close>: a minus
  sign for a negative number, then the digits of its absolute value.
\<close>

definition py_str_int :: "int \<Rightarrow> string" where
  "py_str_int n = (if n < 0 then CHR ''-'' # dec_digits (nat (- n)) else dec_digits (nat n))"

text \<open>
  The replacement field \<^verbatim>\<open>{n:02d}\<close>: minimum width 2, filled with zeros between the sign
  and the digits. A rendering that is already two characters or longer is left as it is.
\<close>

definition py_fmt_02d :: "int \<Rightarrow> string" where
  "py_fmt_02d n =
     (let sign = (if n < 0 then ''-'' else '''');
          ds = dec_digits (nat \<bar>n\<bar>)
      in sign @ replicate (2 - (length sign + length ds)) (CHR ''0'') @ ds)"

text \<open>
  \<^verbatim>\<open>delta.total_seconds()\<close> is the true division of two integers,
  \<^verbatim>\<open>((days * 86400 + seconds) * 10**6 + microseconds) / 10**6\<close>, and Python rounds the
  quotient of two integers correctly: the result is the binary64 number nearest to the
  exact quotient, the one with an even significand when two are equally near. A
  \<^verbatim>\<open>timedelta\<close> lies between \<^verbatim>\<open>timedelta.min\<close> and \<^verbatim>\<open>timedelta.max\<close> (a magnitude of
  at most 999999999 days, less than \<open>2 ^ 47\<close> seconds) and is a whole number of
  microseconds, so the magnitude of a quotient that is not zero lies between \<open>10 ^ -6\<close>
  and \<open>2 ^ 47\<close>: it is a normal binary64 number with a significand of 53 bits.

  A float is represented exactly by a pair \<open>(m, k)\<close> that stands for \<open>m / 2 ^ k\<close>.
  \<open>scale_to_53 a d k\<close> doubles the numerator \<open>a\<close> until \<open>a / d\<close> is at least \<open>2 ^ 52\<close>,
  counting the doublings in \<open>k\<close>; the quotient then lies in \<open>[2 ^ 52, 2 ^ 53)\<close>, where the
  binary64 numbers are the integers, and \<open>round_half_even\<close> picks the nearest one.
\<close>

type_synonym micros = int
type_synonym pyfloat = "int \<times> nat"

function scale_to_53 :: "nat \<Rightarrow> nat \<Rightarrow> nat \<Rightarrow> nat \<times> nat" where
  "scale_to_53 a d k =
     (if 0 < a \<and> a < 2 ^ 52 * d then scale_to_53 (2 * a) d (Suc k) else (a, k))"
  by pat_completeness auto
termination
  by (relation "measure (\<lambda>(a, d, k). 2 ^ 52 * d - a)") auto

declare scale_to_53.simps [simp del]

definition round_half_even :: "nat \<Rightarrow> nat \<Rightarrow> nat" where
  "round_half_even a d =
     (let q = a div d; r = a mod d
      in if 2 * r < d then q
         else if d < 2 * r then q + 1
         else if even q then q else q + 1)"

definition int_true_div :: "int \<Rightarrow> nat \<Rightarrow> pyfloat" where
  "int_true_div n d =
     (let (a, k) = scale_to_53 (nat \<bar>n\<bar>) d 0;
          m = round_half_even a d
      in (sgn n * int m, k))"

definition total_seconds :: "micros \<Rightarrow> pyfloat" where
  "total_seconds delta = int_true_div delta 1000000"

text \<open>
  \<^verbatim>\<open>int(x)\<close> of a float drops the fraction, towards zero.
\<close>

definition py_int :: "pyfloat \<Rightarrow> int" where
  "py_int x = (case x of (m, k) \<Rightarrow> if 0 \<le> m then m div 2 ^ k else - ((- m) div 2 ^ k))"

text \<open>
  \<^verbatim>\<open>int(x // 60)\<close> of a float \<open>x\<close>. Python computes \<^verbatim>\<open>x // 60\<close> from \<^verbatim>\<open>fmod(x, 60)\<close>,
  which is exact; for a magnitude below \<open>2 ^ 53\<close> the difference \<^verbatim>\<open>x - fmod(x, 60)\<close> and
  its quotient by 60 are exact as well, so the result is the floor of the exact quotient,
  an integral float that \<^verbatim>\<open>int\<close> leaves as it is.
\<close>

definition py_int_floordiv_60 :: "pyfloat \<Rightarrow> int" where
  "py_int_floordiv_60 x = (case x of (m, k) \<Rightarrow> m div (60 * 2 ^ k))"

text \<open>
  \<^verbatim>\<open>
  def format_duration(delta):
      total_seconds = int(delta.total_seconds())
      hours, remainder = divmod(total_seconds, 3600)
      minutes, _ = divmod(remainder, 60)
      return f"{hours}h{minutes:02d}m"
  \<close>
  Python's \<^verbatim>\<open>divmod\<close> on integers is floor division with a remainder of the divisor's
  sign, which is \<open>div\<close> and \<open>mod\<close> on \<^typ>\<open>int\<close>. The local variable \<^verbatim>\<open>total_seconds\<close> is
  written \<open>total_seconds'\<close>.
\<close>

definition format_duration :: "micros \<Rightarrow> string" where
  "format_duration delta =
     (let total_seconds' = py_int (total_seconds delta);
          hours = total_seconds' div 3600;
          remainder = total_seconds' mod 3600;
          minutes = remainder div 60
      in py_str_int hours @ ''h'' @ py_fmt_02d minutes @ ''m'')"

text \<open>
  \<^verbatim>\<open>
  def format_hhmm(delta):
      total_minutes = int(delta.total_seconds() // 60)
      hours, minutes = divmod(total_minutes, 60)
      return f"{hours:02d}:{minutes:02d}"
  \<close>
\<close>

definition format_hhmm :: "micros \<Rightarrow> string" where
  "format_hhmm delta =
     (let total_minutes = py_int_floordiv_60 (total_seconds delta);
          hours = total_minutes div 60;
          minutes = total_minutes mod 60
      in py_fmt_02d hours @ '':'' @ py_fmt_02d minutes)"

text \<open>
  The words of the spec about the renderings: the whole seconds of a duration (the
  floor, in seconds, of its microseconds), the value of a decimal digit and of a run of
  decimal digits, a number below 100 written in exactly two digits, and the hours of a
  clock-form rendering (what stands before the colon).
\<close>

definition whole_seconds :: "micros \<Rightarrow> int" where
  "whole_seconds delta = delta div 1000000"

definition digit_value :: "char \<Rightarrow> nat" where
  "digit_value c = of_char c - 48"

definition dec_value :: "string \<Rightarrow> nat" where
  "dec_value s = foldl (\<lambda>acc c. 10 * acc + digit_value c) 0 s"

definition two_digits :: "nat \<Rightarrow> string" where
  "two_digits n = [digit_char (n div 10), digit_char n]"

definition hours_part :: "string \<Rightarrow> string" where
  "hours_part s = takeWhile (\<lambda>c. c \<noteq> CHR '':'') s"

subsection \<open>The window of the current local day\<close>

text \<open>
  \<^verbatim>\<open>
  def today_window(self, now):
      tzinfo = now.astimezone().tzinfo
      today = now.astimezone().date()
      start_local = datetime.combine(today, time.min, tzinfo=tzinfo).astimezone(timezone.utc)
      end_local = datetime.combine(today + timedelta(days=1), time.min, tzinfo=tzinfo).astimezone(timezone.utc)
      return start_local, end_local
  \<close>
  \<^verbatim>\<open>now.astimezone()\<close>, without an argument, asks the operating system for the UTC
  offset of the local zone at the instant \<^verbatim>\<open>now\<close> and returns the same instant with a
  \<^verbatim>\<open>datetime.timezone\<close> of that offset: a zone whose offset is fixed. The local zone of
  the system is a parameter, the function \<open>zone\<close> giving the offset (in seconds, east of
  UTC positive) in force at each instant; \<open>tzinfo\<close> below is the fixed offset of the
  \<^verbatim>\<open>timezone\<close> object. A date is the number of its day, counted from the epoch;
  \<^verbatim>\<open>datetime.combine(d, time.min, tzinfo=tzinfo)\<close> is the instant at which a clock running
  at the offset \<open>tzinfo\<close> shows 00:00:00 on day \<open>d\<close>. (Dates are unbounded here:
  \<^verbatim>\<open>today + timedelta(days=1)\<close> of the source overflows on the last day of year 9999.)
\<close>

type_synonym zone = "instant \<Rightarrow> int"

definition today_window :: "zone \<Rightarrow> instant \<Rightarrow> instant \<times> instant" where
  "today_window zone now =
     (let tzinfo = zone now;
          today = (now + tzinfo) div 86400;
          start_local = today * 86400 - tzinfo;
          end_local = (today + 1) * 86400 - tzinfo
      in (start_local, end_local))"

text \<open>
  The words of the spec about the window, for a zone whose offset may change: the local
  calendar date of an instant, and the instant being the local midnight that begins a
  date (the local clock, at the offset in force at that very instant, shows 00:00:00 of
  that date).
\<close>

definition local_date :: "zone \<Rightarrow> instant \<Rightarrow> int" where
  "local_date zone t = (t + zone t) div 86400"

definition local_midnight_of :: "zone \<Rightarrow> int \<Rightarrow> instant \<Rightarrow> bool" where
  "local_midnight_of zone d t = (t + zone t = d * 86400)"

subsection \<open>The daily summary\<close>

text \<open>
  \<^verbatim>\<open>
  def render_summary(self, now):
      start_local, end_local = self.today_window(now)
      total = timedelta(0)
      for entry in self.entries:
          entry_end = entry.end or now
          latest_start = max(entry.start, start_local)
          earliest_end = min(entry_end, end_local)
          if earliest_end <= latest_start:
              continue
          total += earliest_end - latest_start

      target = timedelta(hours=8)
      remaining = target - total
      if remaining < timedelta(0):
          remaining = timedelta(0)
      self.summary_label.config(
          text=f"Today: {format_hhmm(total)} worked, {format_hhmm(remaining)} remaining to 08:00"
      )
  \<close>
  A \<^verbatim>\<open>datetime\<close> is always truthy, so \<^verbatim>\<open>entry.end or now\<close> is the end when there is one
  and \<^verbatim>\<open>now\<close> otherwise. The loop is \<open>total_loop\<close>, with the running total as its last
  argument; \<open>daily_total\<close> is the loop from \<^verbatim>\<open>timedelta(0)\<close> for a given window (the
  \<^verbatim>\<open>daily_total(entries, now, window)\<close> of the spec). The totals are in seconds and
  \<open>format_hhmm\<close> takes microseconds, hence the factor 1000000.
\<close>

definition end_or_now :: "entry \<Rightarrow> instant \<Rightarrow> instant" where
  "end_or_now entry now = (case end' entry of None \<Rightarrow> now | Some t \<Rightarrow> t)"

fun total_loop :: "entry list \<Rightarrow> instant \<Rightarrow> instant \<Rightarrow> instant \<Rightarrow> timedelta \<Rightarrow> timedelta" where
  "total_loop [] now start_local end_local total' = total'"
| "total_loop (entry # rest) now start_local end_local total' =
     (let entry_end = end_or_now entry now;
          latest_start = max (start entry) start_local;
          earliest_end = min entry_end end_local
      in if earliest_end \<le> latest_start
         then total_loop rest now start_local end_local total'
         else total_loop rest now start_local end_local (total' + (earliest_end - latest_start)))"

definition daily_total :: "entry list \<Rightarrow> instant \<Rightarrow> instant \<times> instant \<Rightarrow> timedelta" where
  "daily_total entries now window = total_loop entries now (fst window) (snd window) 0"

text \<open>
  \<^verbatim>\<open>
  target = timedelta(hours=8)
  remaining = target - total
  if remaining < timedelta(0):
      remaining = timedelta(0)
  \<close>
  The source fixes the target; it is a parameter here and \<open>target_8h\<close> is the value of
  the source.
\<close>

definition remaining :: "timedelta \<Rightarrow> timedelta \<Rightarrow> timedelta" where
  "remaining total' target =
     (let r = target - total' in if r < 0 then 0 else r)"

definition target_8h :: timedelta where
  "target_8h = 8 * 3600"

definition render_summary :: "zone \<Rightarrow> entry list \<Rightarrow> instant \<Rightarrow> string" where
  "render_summary zone entries now =
     (let window = today_window zone now;
          total' = daily_total entries now window;
          remaining' = remaining total' target_8h
      in ''Today: '' @ format_hhmm (total' * 1000000) @ '' worked, ''
           @ format_hhmm (remaining' * 1000000) @ '' remaining to 08:00'')"

text \<open>
  The words of the spec about one entry: its effective interval is clipped to the window
  by \<open>(max start window_start, min end_or_now window_end)\<close>, and the length of the clipped
  interval counts when it is positive.
\<close>

definition clipped_length :: "entry \<Rightarrow> instant \<Rightarrow> instant \<times> instant \<Rightarrow> timedelta" where
  "clipped_length entry now window =
     (let lo = max (start entry) (fst window);
          hi = min (end_or_now entry now) (snd window)
      in if 0 < hi - lo then hi - lo else 0)"

section \<open>Properties\<close>

subsection \<open>Remaining time\<close>

text \<open>
  Claim C7. For every total and every target, \<open>remaining total' target\<close> is
  \<open>max (target - total) 0\<close>; it is never negative, and it is zero whenever the total has
  reached the target.
\<close>

theorem remaining_max_nonneg:
  "remaining total' target = max (target - total') 0
   \<and> 0 \<le> remaining total' target
   \<and> (target \<le> total' \<longrightarrow> remaining total' target = 0)"
  by (simp add: remaining_def Let_def max_def)

theorem remaining_max_nonneg_witness:
  "remaining (9 * 3600) target_8h = max (target_8h - 9 * 3600) 0
   \<and> 0 \<le> remaining (9 * 3600) target_8h
   \<and> target_8h \<le> 9 * 3600
   \<and> remaining (9 * 3600) target_8h = 0"
  using remaining_max_nonneg [of "9 * 3600" target_8h]
  by (simp add: target_8h_def)

subsection \<open>Finding the open entry\<close>

lemma find_open_from_range: "find_open_from i es = Some k \<Longrightarrow> i \<le> k \<and> k < i + length es \<and> end' (es ! (k - i)) = None"
proof (induction es arbitrary: i)
  case Nil
  then show ?case by simp
next
  case (Cons e es)
  show ?case
  proof (cases "end' e = None")
    case True
    with Cons.prems show ?thesis by simp
  next
    case False
    with Cons.prems have "find_open_from (Suc i) es = Some k" by simp
    from Cons.IH [OF this]
    have *: "Suc i \<le> k" "k < Suc i + length es" "end' (es ! (k - Suc i)) = None" by simp_all
    from *(1) have "k - i \<noteq> 0" "k - i - 1 = k - Suc i" by arith+
    with * show ?thesis by (simp add: nth_Cons')
  qed
qed

lemma find_open_from_None: "find_open_from i es = None \<longleftrightarrow> (\<forall>e \<in> set es. end' e \<noteq> None)"
  by (induction es arbitrary: i) auto

lemma find_open_in_range: "find_open es = Some k \<Longrightarrow> k < length es \<and> end' (es ! k) = None"
  using find_open_from_range [of 0 es k] by (simp add: find_open_def)

lemma find_open_None: "find_open es = None \<longleftrightarrow> filter (\<lambda>e. end' e = None) es = []"
  by (simp add: find_open_def find_open_from_None filter_empty_conv)

lemma open_indices_length: "length (open_indices es) = length (filter (\<lambda>e. end' e = None) es)"
proof -
  have "filter (\<lambda>e. end' e = None) (map (nth es) [0..<length es]) = map (nth es) (open_indices es)"
    by (simp add: filter_map open_indices_def comp_def)
  then show ?thesis by (simp add: map_nth)
qed

subsection \<open>Stripping the description\<close>

lemma last_dropWhile_ne: "dropWhile P xs \<noteq> [] \<Longrightarrow> last (dropWhile P xs) = last xs"
  by (metis dropWhile_eq_Nil_conv dropWhile_last)

lemma py_strip_ends:
  assumes "py_strip s \<noteq> []"
  shows "\<not> py_isspace (hd (py_strip s)) \<and> \<not> py_isspace (last (py_strip s))"
proof -
  let ?zs = "dropWhile py_isspace s"
  let ?ys = "dropWhile py_isspace (rev ?zs)"
  from assms have ys: "?ys \<noteq> []" by (simp add: py_strip_def)
  have zs: "?zs \<noteq> []"
  proof
    assume "?zs = []"
    then have "?ys = []" by (simp only: rev.simps dropWhile.simps)
    with ys show False by contradiction
  qed
  have "hd (py_strip s) = last ?ys" using ys by (simp add: py_strip_def hd_rev)
  also have "\<dots> = last (rev ?zs)" using ys by (rule last_dropWhile_ne)
  also have "\<dots> = hd ?zs" using zs by (simp add: last_rev)
  finally have "hd (py_strip s) = hd ?zs" .
  moreover have "\<not> py_isspace (hd ?zs)" using zs by (rule hd_dropWhile)
  moreover have "last (py_strip s) = hd ?ys" using ys by (simp add: py_strip_def last_rev)
  moreover have "\<not> py_isspace (hd ?ys)" using ys by (rule hd_dropWhile)
  ultimately show ?thesis by simp
qed

lemma py_strip_blank: "(py_strip s = []) = (\<forall>c \<in> set s. py_isspace c)"
proof
  assume "py_strip s = []"
  then have all: "\<forall>c \<in> set (dropWhile py_isspace s). py_isspace c"
    by (simp add: py_strip_def)
  have "dropWhile py_isspace s = []"
  proof (rule ccontr)
    assume ne: "dropWhile py_isspace s \<noteq> []"
    then have "\<not> py_isspace (hd (dropWhile py_isspace s))" by (rule hd_dropWhile)
    moreover from ne have "hd (dropWhile py_isspace s) \<in> set (dropWhile py_isspace s)"
      by (rule hd_in_set)
    ultimately show False using all by blast
  qed
  then show "\<forall>c \<in> set s. py_isspace c" by simp
next
  assume "\<forall>c \<in> set s. py_isspace c"
  then have "dropWhile py_isspace s = []" by simp
  then show "py_strip s = []" by (simp only: py_strip_def rev.simps dropWhile.simps)
qed

subsection \<open>The commands, case by case\<close>

lemma stop_entry_running:
  assumes "find_open s = Some idx"
  shows "stop_entry clock s =
     (None, s[idx := \<lparr>start = start (s ! idx),
                      end' = Some (if clock \<le> start (s ! idx) then start (s ! idx) + 60 else clock),
                      text' = text' (s ! idx)\<rparr>])"
  using assms by (simp add: stop_entry_def read_entries_def write_entries_def Let_def)

lemma stop_entry_idle: "find_open s = None \<Longrightarrow> stop_entry clock s = (Some NothingRunning, s)"
  by (simp add: stop_entry_def read_entries_def)

lemma filter_open_update:
  assumes "idx < length s" "end' (s ! idx) = None" "end' e \<noteq> None"
  shows "Suc (length (filter (\<lambda>e. end' e = None) (s[idx := e]))) = length (filter (\<lambda>e. end' e = None) s)"
proof -
  from assms(1) have "s = take idx s @ s ! idx # drop (Suc idx) s" by (rule id_take_nth_drop)
  then have "length (filter (\<lambda>e. end' e = None) s)
      = length (filter (\<lambda>e. end' e = None) (take idx s @ s ! idx # drop (Suc idx) s))" by simp
  moreover from assms(1) have "s[idx := e] = take idx s @ e # drop (Suc idx) s"
    by (rule upd_conv_take_nth_drop)
  ultimately show ?thesis using assms(2,3) by simp
qed

lemma py_strip_decomp:
  "\<exists>pre suf. s = pre @ py_strip s @ suf \<and> (\<forall>c \<in> set pre. py_isspace c) \<and> (\<forall>c \<in> set suf. py_isspace c)"
proof -
  let ?zs = "dropWhile py_isspace s"
  let ?pre = "takeWhile py_isspace s"
  let ?suf = "rev (takeWhile py_isspace (rev ?zs))"
  have split_rev: "takeWhile py_isspace (rev ?zs) @ dropWhile py_isspace (rev ?zs) = rev ?zs"
    by (rule takeWhile_dropWhile_id)
  have "?zs = rev (rev ?zs)" by (simp only: rev_rev_ident)
  also have "\<dots> = rev (takeWhile py_isspace (rev ?zs) @ dropWhile py_isspace (rev ?zs))"
    by (simp only: split_rev)
  also have "\<dots> = py_strip s @ ?suf" by (simp only: rev_append py_strip_def)
  finally have "?zs = py_strip s @ ?suf" .
  moreover have "s = ?pre @ ?zs" by simp
  ultimately have "s = ?pre @ py_strip s @ ?suf" by simp
  moreover have "\<forall>c \<in> set ?pre. py_isspace c" by (auto dest: set_takeWhileD)
  moreover have "\<forall>c \<in> set ?suf. py_isspace c" by (auto dest: set_takeWhileD)
  ultimately show ?thesis by blast
qed

lemma start_entry_cases:
  "start_entry typed clock s =
     (if py_strip typed = [] then (Some EmptyDescription, s)
      else if find_open s \<noteq> None then (Some AlreadyRunning, s)
      else (None, s @ [\<lparr>start = clock, end' = None, text' = py_strip typed\<rparr>]))"
  by (simp add: start_entry_def read_entries_def append_entry_def Let_def)

subsection \<open>Closing an entry\<close>

text \<open>
  Claim C2. The entry that the stop command writes has an end strictly after its start:
  when the clock reads an instant at or before the start of the open entry, the end
  written is the start plus one minute (60 seconds). The closed entry therefore has a
  positive duration, whatever the reference instant. The command is accepted, keeps the
  start of the entry and leaves every other entry of the log as it was.
\<close>

theorem stop_entry_end_after_start:
  assumes "find_open s = Some idx"
  shows "fst (stop_entry clock s) = None
     \<and> length (snd (stop_entry clock s)) = length s
     \<and> start (snd (stop_entry clock s) ! idx) = start (s ! idx)
     \<and> (\<exists>t. end' (snd (stop_entry clock s) ! idx) = Some t
            \<and> start (snd (stop_entry clock s) ! idx) < t
            \<and> (clock \<le> start (s ! idx) \<longrightarrow> t = start (s ! idx) + 60))
     \<and> 0 < duration (snd (stop_entry clock s) ! idx) now
     \<and> (\<forall>j. j \<noteq> idx \<longrightarrow> snd (stop_entry clock s) ! j = s ! j)"
proof -
  from assms have "idx < length s" using find_open_in_range by blast
  then show ?thesis
    by (simp add: stop_entry_running [OF assms] duration_def)
qed

theorem stop_entry_end_after_start_witness:
  "find_open [\<lparr>start = 32400, end' = None, text' = [119]\<rparr>] = Some 0
   \<and> end' (snd (stop_entry 32399 [\<lparr>start = 32400, end' = None, text' = [119]\<rparr>]) ! 0) = Some 32460
   \<and> 0 < duration (snd (stop_entry 32399 [\<lparr>start = 32400, end' = None, text' = [119]\<rparr>]) ! 0) 0"
proof -
  have h: "find_open [\<lparr>start = 32400, end' = None, text' = [119]\<rparr>] = Some 0"
    by (simp add: find_open_def)
  from stop_entry_end_after_start [OF h, of 32399 0] h show ?thesis by auto
qed

text \<open>
  Claim C3, as amended. The stop command sets the end of the open entry to the clock
  reading when that reading is after the start of the entry, and to the start plus one
  minute otherwise. This is \<open>max clock (start + 60)\<close> when the reading is at or before
  the start or at least one minute after it; for a reading strictly between the start
  and the start plus one minute the end written is the reading itself.
\<close>

theorem stop_entry_effective_instant:
  assumes "find_open s = Some idx"
  shows "end' (snd (stop_entry clock s) ! idx)
           = Some (if clock \<le> start (s ! idx) then start (s ! idx) + 60 else clock)
     \<and> (clock \<le> start (s ! idx) \<or> start (s ! idx) + 60 \<le> clock \<longrightarrow>
          end' (snd (stop_entry clock s) ! idx) = Some (max clock (start (s ! idx) + 60)))
     \<and> (start (s ! idx) < clock \<and> clock < start (s ! idx) + 60 \<longrightarrow>
          end' (snd (stop_entry clock s) ! idx) = Some clock)"
proof -
  from assms have "idx < length s" using find_open_in_range by blast
  then show ?thesis
    by (simp add: stop_entry_running [OF assms] max_def)
qed

theorem stop_entry_effective_instant_witness:
  "find_open [\<lparr>start = 32400, end' = None, text' = [119]\<rparr>] = Some 0
   \<and> end' (snd (stop_entry 34200 [\<lparr>start = 32400, end' = None, text' = [119]\<rparr>]) ! 0)
       = Some (max 34200 (32400 + 60))"
proof -
  have h: "find_open [\<lparr>start = 32400, end' = None, text' = [119]\<rparr>] = Some 0"
    by (simp add: find_open_def)
  from stop_entry_effective_instant [OF h, of 34200] h show ?thesis by simp
qed

text \<open>
  The claim as first stated, with \<open>max clock (start + 60)\<close> for every reading, fails
  thirty seconds after the start: an entry started at 09:00:00 and stopped at 09:00:30
  is closed at 09:00:30, not at 09:01:00.
\<close>

theorem stop_within_first_minute_counterexample:
  "find_open [\<lparr>start = 32400, end' = None, text' = [119]\<rparr>] = Some 0
   \<and> end' (snd (stop_entry 32430 [\<lparr>start = 32400, end' = None, text' = [119]\<rparr>]) ! 0) = Some 32430
   \<and> end' (snd (stop_entry 32430 [\<lparr>start = 32400, end' = None, text' = [119]\<rparr>]) ! 0)
       \<noteq> Some (max 32430 (start (\<lparr>start = 32400, end' = None, text' = [119]\<rparr>) + 60))"
  by (simp add: find_open_def stop_entry_def read_entries_def write_entries_def Let_def)

subsection \<open>Refused commands\<close>

text \<open>
  Claim C9, as amended. A start command issued while an entry is open is refused and
  leaves the log unchanged: with \<open>AlreadyRunning\<close> when the stripped description is not
  empty, and with \<open>EmptyDescription\<close> when it is, since the description is checked
  before the log is read. A stop command issued when no entry is open is refused with
  \<open>NothingRunning\<close> and leaves the log unchanged.
\<close>

theorem rejected_commands_leave_log:
  "(find_open s \<noteq> None \<longrightarrow>
      start_entry typed clock s
        = (Some (if py_strip typed = [] then EmptyDescription else AlreadyRunning), s))
   \<and> (find_open s = None \<longrightarrow> stop_entry clock s = (Some NothingRunning, s))"
  by (simp add: start_entry_cases stop_entry_idle)

theorem rejected_commands_leave_log_witness:
  "find_open [\<lparr>start = 32400, end' = None, text' = [119]\<rparr>] \<noteq> None
   \<and> start_entry [120] 32500 [\<lparr>start = 32400, end' = None, text' = [119]\<rparr>]
       = (Some AlreadyRunning, [\<lparr>start = 32400, end' = None, text' = [119]\<rparr>])
   \<and> find_open [\<lparr>start = 32400, end' = Some 32460, text' = [119]\<rparr>] = None
   \<and> stop_entry 32500 [\<lparr>start = 32400, end' = Some 32460, text' = [119]\<rparr>]
       = (Some NothingRunning, [\<lparr>start = 32400, end' = Some 32460, text' = [119]\<rparr>])"
  using rejected_commands_leave_log [of "[\<lparr>start = 32400, end' = None, text' = [119]\<rparr>]" "[120]" 32500]
    rejected_commands_leave_log [of "[\<lparr>start = 32400, end' = Some 32460, text' = [119]\<rparr>]" "[120]" 32500]
  by (simp add: find_open_def py_strip_def py_isspace_def)

text \<open>
  The claim as first stated, with \<open>AlreadyRunning\<close> for every start command issued while
  an entry is open, fails for a description of two spaces: the refusal is
  \<open>EmptyDescription\<close>.
\<close>

theorem start_blank_while_running_counterexample:
  "find_open [\<lparr>start = 32400, end' = None, text' = [119]\<rparr>] \<noteq> None
   \<and> start_entry [32, 32] 32500 [\<lparr>start = 32400, end' = None, text' = [119]\<rparr>]
       = (Some EmptyDescription, [\<lparr>start = 32400, end' = None, text' = [119]\<rparr>])
   \<and> fst (start_entry [32, 32] 32500 [\<lparr>start = 32400, end' = None, text' = [119]\<rparr>])
       \<noteq> Some AlreadyRunning"
  by (simp add: find_open_def start_entry_cases py_strip_def py_isspace_def)

subsection \<open>The description of a new entry\<close>

text \<open>
  Claim C10. The start command strips the leading and the trailing whitespace from the
  description typed: the description is a run of whitespace, the stripped text, and a
  run of whitespace. When the stripped text is empty, which covers a description made of
  whitespace only, the command is refused and the log is unchanged. Hence the command
  either leaves the log as it was or appends one entry whose text is the stripped
  description, not empty, with a first and a last character that are not whitespace.
\<close>

theorem start_entry_strips_description:
  "((\<forall>c \<in> set typed. py_isspace c) \<longrightarrow> start_entry typed clock s = (Some EmptyDescription, s))
   \<and> (py_strip typed = [] \<longrightarrow> start_entry typed clock s = (Some EmptyDescription, s))
   \<and> (\<exists>pre suf. typed = pre @ py_strip typed @ suf
          \<and> (\<forall>c \<in> set pre. py_isspace c) \<and> (\<forall>c \<in> set suf. py_isspace c))
   \<and> (snd (start_entry typed clock s) = s
        \<or> (\<exists>e. snd (start_entry typed clock s) = s @ [e]
               \<and> text' e = py_strip typed \<and> text' e \<noteq> []
               \<and> \<not> py_isspace (hd (text' e)) \<and> \<not> py_isspace (last (text' e))))"
proof -
  have blank: "(\<forall>c \<in> set typed. py_isspace c) \<longrightarrow> start_entry typed clock s = (Some EmptyDescription, s)"
    by (simp add: start_entry_cases py_strip_blank)
  have empty: "py_strip typed = [] \<longrightarrow> start_entry typed clock s = (Some EmptyDescription, s)"
    by (simp add: start_entry_cases)
  have created: "snd (start_entry typed clock s) = s
        \<or> (\<exists>e. snd (start_entry typed clock s) = s @ [e]
               \<and> text' e = py_strip typed \<and> text' e \<noteq> []
               \<and> \<not> py_isspace (hd (text' e)) \<and> \<not> py_isspace (last (text' e)))"
  proof (cases "py_strip typed = [] \<or> find_open s \<noteq> None")
    case True
    then show ?thesis by (auto simp: start_entry_cases)
  next
    case False
    then have ne: "py_strip typed \<noteq> []" by simp
    from False have "snd (start_entry typed clock s)
        = s @ [\<lparr>start = clock, end' = None, text' = py_strip typed\<rparr>]"
      by (simp add: start_entry_cases)
    with ne py_strip_ends [OF ne] show ?thesis by simp
  qed
  from blank empty py_strip_decomp [of typed] created show ?thesis by blast
qed

theorem start_entry_strips_description_witness:
  "py_isspace 32 \<and> py_isspace 9 \<and> py_isspace 10
   \<and> py_strip [32, 9, 10] = []
   \<and> start_entry [32, 9, 10] 32400 [] = (Some EmptyDescription, [])
   \<and> py_strip [32, 119, 32, 120, 10] = [119, 32, 120]
   \<and> snd (start_entry [32, 119, 32, 120, 10] 32400 [])
        = [\<lparr>start = 32400, end' = None, text' = [119, 32, 120]\<rparr>]"
  using start_entry_strips_description [of "[32, 9, 10]" 32400 "[]"]
  by (simp add: py_isspace_def py_strip_def start_entry_cases find_open_def)

subsection \<open>At most one open entry\<close>

lemma single_open_conv:
  "length (open_indices es) \<le> 1 \<Longrightarrow>
     open_indices es = (case find_open es of None \<Rightarrow> [] | Some i \<Rightarrow> [i])"
proof (cases "find_open es")
  case None
  then have "length (open_indices es) = 0" by (simp add: open_indices_length find_open_None)
  with None show ?thesis by simp
next
  case (Some i)
  assume le: "length (open_indices es) \<le> 1"
  from find_open_in_range [OF Some] have "i \<in> set (open_indices es)"
    by (simp add: open_indices_def)
  with le show ?thesis using Some
    by (cases "open_indices es") auto
qed

lemma exec_single_open:
  assumes "length (open_indices s) \<le> 1"
  shows "length (open_indices (exec c s)) \<le> 1"
proof (cases c)
  case (Start typed clock)
  show ?thesis
  proof (cases "py_strip typed = [] \<or> find_open s \<noteq> None")
    case True
    with Start assms show ?thesis by (auto simp: start_entry_cases)
  next
    case False
    then have "filter (\<lambda>e. end' e = None) s = []" by (simp add: find_open_None)
    with False Start show ?thesis by (simp add: start_entry_cases open_indices_length)
  qed
next
  case (Stop clock)
  show ?thesis
  proof (cases "find_open s")
    case None
    with Stop assms show ?thesis by (simp add: stop_entry_idle)
  next
    case (Some idx)
    let ?e = "\<lparr>start = start (s ! idx),
         end' = Some (if clock \<le> start (s ! idx) then start (s ! idx) + 60 else clock),
         text' = text' (s ! idx)\<rparr>"
    from find_open_in_range [OF Some]
    have "Suc (length (filter (\<lambda>e. end' e = None) (s[idx := ?e])))
           = length (filter (\<lambda>e. end' e = None) s)"
      by (intro filter_open_update) simp_all
    with assms have "length (open_indices (s[idx := ?e])) \<le> 1"
      by (simp add: open_indices_length)
    with Stop show ?thesis by (simp add: stop_entry_running [OF Some])
  qed
qed

lemma run_single_open:
  "length (open_indices s) \<le> 1 \<Longrightarrow> length (open_indices (run cmds s)) \<le> 1"
proof (induction cmds arbitrary: s)
  case Nil
  then show ?case by (simp add: run_def)
next
  case (Cons c cmds)
  from Cons.prems have "length (open_indices (exec c s)) \<le> 1" by (rule exec_single_open)
  then have "length (open_indices (run cmds (exec c s))) \<le> 1" by (rule Cons.IH)
  then show ?case by (simp add: run_def)
qed

text \<open>
  Claim C1. Starting from a log with at most one open entry, after every command of a
  strictly alternating sequence of start and stop commands (that is, after every prefix
  of the sequence) at most one entry of the log has an absent end, and the positions with
  an absent end are exactly what \<open>find_open\<close> reports: none, or that one position.
  (\<open>run_single_open\<close> shows that the alternation is not needed for the bound.)
\<close>

theorem single_open_after_every_command:
  assumes "length (open_indices s) \<le> 1" and "alternating cmds"
  shows "\<forall>n. length (open_indices (run (take n cmds) s)) \<le> 1
            \<and> open_indices (run (take n cmds) s)
                = (case find_open (run (take n cmds) s) of None \<Rightarrow> [] | Some i \<Rightarrow> [i])"
proof
  fix n
  from assms(1) have le: "length (open_indices (run (take n cmds) s)) \<le> 1"
    by (rule run_single_open)
  from le single_open_conv [OF le] show "length (open_indices (run (take n cmds) s)) \<le> 1
            \<and> open_indices (run (take n cmds) s)
                = (case find_open (run (take n cmds) s) of None \<Rightarrow> [] | Some i \<Rightarrow> [i])"
    by (rule conjI)
qed

theorem single_open_after_every_command_witness:
  "length (open_indices []) \<le> 1
   \<and> alternating [Start [119] 32400, Stop 34200, Start [120] 36000]
   \<and> open_indices (run (take 1 [Start [119] 32400, Stop 34200, Start [120] 36000]) []) = [0]
   \<and> open_indices (run (take 2 [Start [119] 32400, Stop 34200, Start [120] 36000]) []) = []
   \<and> open_indices (run (take 3 [Start [119] 32400, Stop 34200, Start [120] 36000]) []) = [1]
   \<and> (\<forall>n. length (open_indices (run (take n [Start [119] 32400, Stop 34200, Start [120] 36000]) [])) \<le> 1)"
proof -
  have h1: "length (open_indices []) \<le> 1" by (simp add: open_indices_def)
  have h2: "alternating [Start [119] 32400, Stop 34200, Start [120] 36000]" by simp
  have r1: "open_indices (run (take 1 [Start [119] 32400, Stop 34200, Start [120] 36000]) []) = [0]"
    by (simp add: run_def start_entry_cases py_strip_def py_isspace_def find_open_def open_indices_def)
  have r2: "open_indices (run (take 2 [Start [119] 32400, Stop 34200, Start [120] 36000]) []) = []"
    by (simp add: run_def start_entry_cases py_strip_def py_isspace_def find_open_def open_indices_def
        stop_entry_def read_entries_def write_entries_def Let_def take_Suc_conv_app_nth numeral_2_eq_2)
  have r3: "open_indices (run (take 3 [Start [119] 32400, Stop 34200, Start [120] 36000]) []) = [1]"
    by (simp add: run_def start_entry_cases py_strip_def py_isspace_def find_open_def open_indices_def
        stop_entry_def read_entries_def write_entries_def Let_def upt_rec)
  from single_open_after_every_command [OF h1 h2]
  have "\<forall>n. length (open_indices (run (take n [Start [119] 32400, Stop 34200, Start [120] 36000]) [])) \<le> 1"
    by blast
  with h1 h2 r1 r2 r3 show ?thesis by blast
qed

subsection \<open>The daily total\<close>

lemma total_loop_acc:
  "total_loop entries now sl el acc = acc + (\<Sum>e\<leftarrow>entries. clipped_length e now (sl, el))"
proof (induction entries arbitrary: acc)
  case Nil
  show ?case by simp
next
  case (Cons entry rest)
  define lo where "lo = max (start entry) sl"
  define hi where "hi = min (end_or_now entry now) el"
  have clip: "clipped_length entry now (sl, el) = (if 0 < hi - lo then hi - lo else 0)"
    by (simp only: clipped_length_def Let_def fst_conv snd_conv lo_def hi_def)
  have "total_loop (entry # rest) now sl el acc
      = total_loop rest now sl el (if hi \<le> lo then acc else acc + (hi - lo))"
    by (simp only: total_loop.simps Let_def lo_def hi_def if_distrib [of "total_loop rest now sl el"])
  also have "\<dots> = (if hi \<le> lo then acc else acc + (hi - lo))
                   + (\<Sum>e\<leftarrow>rest. clipped_length e now (sl, el))"
    by (rule Cons.IH)
  also have "(if hi \<le> lo then acc else acc + (hi - lo)) = acc + clipped_length entry now (sl, el)"
    unfolding clip by simp
  finally show ?case by simp
qed

lemma daily_total_sum_list:
  "daily_total entries now window = (\<Sum>e\<leftarrow>entries. clipped_length e now window)"
  by (simp add: daily_total_def total_loop_acc)

lemma clipped_length_outside:
  "end_or_now e now \<le> fst window \<or> snd window \<le> start e \<Longrightarrow> clipped_length e now window = 0"
  by (auto simp: clipped_length_def Let_def)

lemma clipped_length_inside:
  "fst window \<le> start e \<Longrightarrow> start e \<le> end_or_now e now \<Longrightarrow> end_or_now e now \<le> snd window
     \<Longrightarrow> clipped_length e now window = duration e now"
  by (auto simp: clipped_length_def Let_def duration_def end_or_now_def max_def min_def)

text \<open>
  Claim C4. For every entry list, reference instant and window, \<open>daily_total\<close> is the sum
  over the entries of the length of the interval
  \<open>(max start window_start, min end_or_now window_end)\<close> when that length is positive and
  of zero otherwise. Consequently an entry whose effective interval \<open>[start, end_or_now]\<close>
  lies outside the window (it ends at or before the window's start, or starts at or after
  the window's end) contributes zero, wherever it stands in the list; and an entry whose
  effective interval lies inside the window (window start \<open>\<le>\<close> start \<open>\<le>\<close> end_or_now
  \<open>\<le>\<close> window end) contributes its full duration.
\<close>

theorem daily_total_clip_and_sum:
  "daily_total entries now window = (\<Sum>e\<leftarrow>entries. clipped_length e now window)
   \<and> (end_or_now e now \<le> fst window \<or> snd window \<le> start e \<longrightarrow>
         clipped_length e now window = 0
         \<and> daily_total (before @ e # after) now window = daily_total (before @ after) now window)
   \<and> (fst window \<le> start e \<and> start e \<le> end_or_now e now \<and> end_or_now e now \<le> snd window \<longrightarrow>
         clipped_length e now window = duration e now
         \<and> daily_total (before @ e # after) now window
             = daily_total (before @ after) now window + duration e now)"
  by (simp add: daily_total_sum_list clipped_length_outside clipped_length_inside)

theorem daily_total_clip_and_sum_witness:
  "end_or_now \<lparr>start = - 7200, end' = Some (- 3600), text' = [97]\<rparr> 40000 \<le> fst (0, 86400)
   \<and> clipped_length \<lparr>start = - 7200, end' = Some (- 3600), text' = [97]\<rparr> 40000 (0, 86400) = 0
   \<and> fst (0, 86400) \<le> start \<lparr>start = 32400, end' = None, text' = [98]\<rparr>
   \<and> start \<lparr>start = 32400, end' = None, text' = [98]\<rparr>
        \<le> end_or_now \<lparr>start = 32400, end' = None, text' = [98]\<rparr> 40000
   \<and> end_or_now \<lparr>start = 32400, end' = None, text' = [98]\<rparr> 40000 \<le> snd (0, 86400)
   \<and> clipped_length \<lparr>start = 32400, end' = None, text' = [98]\<rparr> 40000 (0, 86400) = 7600
   \<and> daily_total [\<lparr>start = - 7200, end' = Some (- 3600), text' = [97]\<rparr>,
                    \<lparr>start = 32400, end' = None, text' = [98]\<rparr>] 40000 (0, 86400) = 7600"
  using daily_total_clip_and_sum [of "[\<lparr>start = 32400, end' = None, text' = [98]\<rparr>]" 40000 "(0, 86400)"
      "\<lparr>start = - 7200, end' = Some (- 3600), text' = [97]\<rparr>" "[]" "[\<lparr>start = 32400, end' = None, text' = [98]\<rparr>]"]
    daily_total_clip_and_sum [of "[]" 40000 "(0, 86400)"
      "\<lparr>start = 32400, end' = None, text' = [98]\<rparr>" "[]" "[]"]
  by (simp add: end_or_now_def duration_def)

text \<open>
  Claim C5. For every reference instant and window, two entry lists that are permutations
  of each other (they hold the same entries the same number of times) have the same
  \<open>daily_total\<close>.
\<close>

theorem daily_total_order_independent:
  assumes "mset entries = mset entries'"
  shows "daily_total entries now window = daily_total entries' now window"
proof -
  have "daily_total entries now window
      = sum_mset (image_mset (\<lambda>e. clipped_length e now window) (mset entries))"
    by (simp add: daily_total_sum_list flip: sum_mset_sum_list)
  also have "\<dots> = sum_mset (image_mset (\<lambda>e. clipped_length e now window) (mset entries'))"
    by (simp only: assms)
  also have "\<dots> = daily_total entries' now window"
    by (simp add: daily_total_sum_list flip: sum_mset_sum_list)
  finally show ?thesis .
qed

theorem daily_total_order_independent_witness:
  "mset [\<lparr>start = 0, end' = Some 1800, text' = [97]\<rparr>, \<lparr>start = 32400, end' = None, text' = [98]\<rparr>]
     = mset [\<lparr>start = 32400, end' = None, text' = [98]\<rparr>, \<lparr>start = 0, end' = Some 1800, text' = [97]\<rparr>]
   \<and> daily_total [\<lparr>start = 0, end' = Some 1800, text' = [97]\<rparr>,
                    \<lparr>start = 32400, end' = None, text' = [98]\<rparr>] 40000 (0, 86400)
       = daily_total [\<lparr>start = 32400, end' = None, text' = [98]\<rparr>,
                      \<lparr>start = 0, end' = Some 1800, text' = [97]\<rparr>] 40000 (0, 86400)
   \<and> daily_total [\<lparr>start = 32400, end' = None, text' = [98]\<rparr>,
                    \<lparr>start = 0, end' = Some 1800, text' = [97]\<rparr>] 40000 (0, 86400) = 9400"
proof -
  have h: "mset [\<lparr>start = 0, end' = Some 1800, text' = [97]\<rparr>, \<lparr>start = 32400, end' = None, text' = [98]\<rparr>]
     = mset [\<lparr>start = 32400, end' = None, text' = [98]\<rparr>, \<lparr>start = 0, end' = Some 1800, text' = [97]\<rparr>]"
    by simp
  have v: "daily_total [\<lparr>start = 32400, end' = None, text' = [98]\<rparr>,
                    \<lparr>start = 0, end' = Some 1800, text' = [97]\<rparr>] 40000 (0, 86400) = 9400"
    by (simp add: daily_total_def end_or_now_def)
  from daily_total_order_independent [OF h, of 40000 "(0, 86400)"] h v show ?thesis by simp
qed

subsection \<open>The window of the local day\<close>

lemma today_window_fst: "fst (today_window zone now) = local_date zone now * 86400 - zone now"
  by (simp add: today_window_def local_date_def Let_def)

lemma today_window_snd: "snd (today_window zone now) = (local_date zone now + 1) * 86400 - zone now"
  by (simp add: today_window_def local_date_def Let_def)

lemma local_date_bounds:
  "local_date zone now * 86400 \<le> now + zone now \<and> now + zone now < (local_date zone now + 1) * 86400"
proof -
  define x where "x = now + zone now"
  define q where "q = x div 86400"
  define r where "r = x mod 86400"
  have "x = q * 86400 + r" unfolding q_def r_def by (simp only: div_mult_mod_eq)
  moreover have "0 \<le> r" unfolding r_def by simp
  moreover have "r < 86400" unfolding r_def by simp
  ultimately have "q * 86400 \<le> x \<and> x < (q + 1) * 86400" by (simp add: algebra_simps)
  then show ?thesis unfolding q_def x_def local_date_def .
qed

lemma day_number_unique:
  fixes d x :: int
  assumes "d * 86400 \<le> x" "x < (d + 1) * 86400"
  shows "x div 86400 = d"
proof (rule int_div_pos_eq)
  show "x = 86400 * d + (x - d * 86400)" by simp
  show "0 \<le> x - d * 86400" using assms(1) by simp
  show "x - d * 86400 < 86400" using assms(2) by (simp add: algebra_simps)
qed

lemma today_window_same_day:
  assumes "zone now' = zone now"
    and "fst (today_window zone now) \<le> now'" and "now' < snd (today_window zone now)"
  shows "today_window zone now' = today_window zone now"
proof -
  from assms(2) have "local_date zone now * 86400 \<le> now' + zone now'"
    by (simp add: today_window_fst assms(1))
  moreover from assms(3) have "now' + zone now' < (local_date zone now + 1) * 86400"
    by (simp add: today_window_snd assms(1))
  ultimately have "local_date zone now' = local_date zone now"
    unfolding local_date_def [of zone now'] by (rule day_number_unique)
  then show ?thesis
    by (simp add: prod_eq_iff today_window_fst today_window_snd assms(1))
qed

text \<open>
  What \<open>today_window\<close> computes, for every reference instant and every local zone: the
  window runs from midnight of the local calendar date of \<open>now\<close> to midnight of the
  following date, both read on a clock at the UTC offset in force at \<open>now\<close>. It
  contains \<open>now\<close>, is 24 hours long, and is the same for every instant of that day at
  that offset. A boundary is the local midnight of the zone itself whenever the offset of
  the zone at that boundary is the offset at \<open>now\<close>, as in every zone of fixed offset.
\<close>

lemma today_window_midnights_at_offset_of_now:
  "fst (today_window zone now) + zone now = local_date zone now * 86400
   \<and> snd (today_window zone now) + zone now = (local_date zone now + 1) * 86400
   \<and> fst (today_window zone now) \<le> now \<and> now < snd (today_window zone now)
   \<and> snd (today_window zone now) = fst (today_window zone now) + 86400
   \<and> (zone (fst (today_window zone now)) = zone now \<longrightarrow>
         local_midnight_of zone (local_date zone now) (fst (today_window zone now)))
   \<and> (zone (snd (today_window zone now)) = zone now \<longrightarrow>
         local_midnight_of zone (local_date zone now + 1) (snd (today_window zone now)))
   \<and> (\<forall>now'. zone now' = zone now \<and> fst (today_window zone now) \<le> now'
               \<and> now' < snd (today_window zone now) \<longrightarrow>
             today_window zone now' = today_window zone now)"
proof -
  have a: "fst (today_window zone now) + zone now = local_date zone now * 86400"
    by (simp add: today_window_fst)
  have b: "snd (today_window zone now) + zone now = (local_date zone now + 1) * 86400"
    by (simp add: today_window_snd)
  have c: "fst (today_window zone now) \<le> now \<and> now < snd (today_window zone now)"
    using local_date_bounds [of zone now] by (simp add: today_window_fst today_window_snd)
  have d: "snd (today_window zone now) = fst (today_window zone now) + 86400"
    by (simp add: today_window_fst today_window_snd)
  have e: "zone (fst (today_window zone now)) = zone now \<longrightarrow>
         local_midnight_of zone (local_date zone now) (fst (today_window zone now))"
    using a by (simp add: local_midnight_of_def)
  have f: "zone (snd (today_window zone now)) = zone now \<longrightarrow>
         local_midnight_of zone (local_date zone now + 1) (snd (today_window zone now))"
    using b by (simp add: local_midnight_of_def)
  have g: "\<forall>now'. zone now' = zone now \<and> fst (today_window zone now) \<le> now'
               \<and> now' < snd (today_window zone now) \<longrightarrow>
             today_window zone now' = today_window zone now"
    using today_window_same_day by blast
  from a b c d e f g show ?thesis by blast
qed

lemma today_window_midnights_at_offset_of_now_example:
  "today_window (\<lambda>t. 3600) 1711841400 = (1711839600, 1711926000)
   \<and> local_date (\<lambda>t. 3600) 1711841400 = 19813
   \<and> local_midnight_of (\<lambda>t. 3600) 19813 1711839600
   \<and> local_midnight_of (\<lambda>t. 3600) (19813 + 1) 1711926000
   \<and> today_window (\<lambda>t. 3600) 1711900000 = today_window (\<lambda>t. 3600) 1711841400"
proof -
  have w: "today_window (\<lambda>t. 3600) 1711841400 = (1711839600, 1711926000)"
    by (simp add: today_window_def Let_def)
  have d: "local_date (\<lambda>t. 3600) 1711841400 = 19813"
    by (simp add: local_date_def)
  from today_window_midnights_at_offset_of_now [of "\<lambda>t. 3600" 1711841400]
  have "local_midnight_of (\<lambda>t. 3600) 19813 1711839600
        \<and> local_midnight_of (\<lambda>t. 3600) (19813 + 1) 1711926000
        \<and> today_window (\<lambda>t. 3600) 1711900000 = today_window (\<lambda>t. 3600) 1711841400"
    unfolding w d by simp
  with w d show ?thesis by simp
qed

text \<open>
  Claim C6. For every reference instant and local zone, the window is to run from the
  local midnight that begins the local calendar date of \<open>now\<close> to the next local
  midnight. \<open>today_window\<close> does not meet this on a day on which the offset of the zone
  changes, because both boundaries are taken at the offset in force at \<open>now\<close>. With
  Central European Time moving from UTC+1 to UTC+2 on 2024-03-31 at 01:00 UTC
  (1711846800), the instants 2024-03-30 23:30 UTC (00:30 local time) and 2024-03-31
  01:53:20 UTC (03:53:20 local time) have the same local date, day 19813, whose local
  midnights are 2024-03-30 23:00 UTC and 2024-03-31 22:00 UTC. At the first instant the
  window ends at 23:00 UTC, one hour after the next local midnight; at the second it
  starts at 2024-03-30 22:00 UTC, one hour before the local midnight of the day, so that
  an entry worked from 23:10 to 23:50 local time on the 30th is counted in the total of
  the 31st.
\<close>

theorem today_window_offset_change:
  "local_date (\<lambda>t. if t < 1711846800 then 3600 else 7200) 1711841400 = 19813
   \<and> local_date (\<lambda>t. if t < 1711846800 then 3600 else 7200) 1711850000 = 19813
   \<and> today_window (\<lambda>t. if t < 1711846800 then 3600 else 7200) 1711841400
        = (1711839600, 1711926000)
   \<and> today_window (\<lambda>t. if t < 1711846800 then 3600 else 7200) 1711850000
        = (1711836000, 1711922400)
   \<and> local_midnight_of (\<lambda>t. if t < 1711846800 then 3600 else 7200) 19813 1711839600
   \<and> local_midnight_of (\<lambda>t. if t < 1711846800 then 3600 else 7200) (19813 + 1) 1711922400
   \<and> \<not> local_midnight_of (\<lambda>t. if t < 1711846800 then 3600 else 7200) (19813 + 1)
          (snd (today_window (\<lambda>t. if t < 1711846800 then 3600 else 7200) 1711841400))
   \<and> \<not> local_midnight_of (\<lambda>t. if t < 1711846800 then 3600 else 7200) 19813
          (fst (today_window (\<lambda>t. if t < 1711846800 then 3600 else 7200) 1711850000))
   \<and> local_date (\<lambda>t. if t < 1711846800 then 3600 else 7200) 1711836600 = 19812
   \<and> local_date (\<lambda>t. if t < 1711846800 then 3600 else 7200) 1711839000 = 19812
   \<and> daily_total [\<lparr>start = 1711836600, end' = Some 1711839000, text' = [119]\<rparr>] 1711850000
        (today_window (\<lambda>t. if t < 1711846800 then 3600 else 7200) 1711850000) = 2400"
  by (simp add: today_window_def local_date_def local_midnight_of_def daily_total_def
      end_or_now_def Let_def)

subsection \<open>Rendering durations\<close>

lemma below_ten:
  fixes j :: nat
  assumes "j < 10"
  shows "j = 0 \<or> j = 1 \<or> j = 2 \<or> j = 3 \<or> j = 4 \<or> j = 5 \<or> j = 6 \<or> j = 7 \<or> j = 8 \<or> j = 9"
  using assms by arith

lemma residue_cases:
  fixes k :: nat
  shows "k mod 10 = 0 \<or> k mod 10 = 1 \<or> k mod 10 = 2 \<or> k mod 10 = 3 \<or> k mod 10 = 4
    \<or> k mod 10 = 5 \<or> k mod 10 = 6 \<or> k mod 10 = 7 \<or> k mod 10 = 8 \<or> k mod 10 = 9"
proof -
  have "k mod 10 < 10" by simp
  then show ?thesis by (rule below_ten)
qed

lemma digit_value_digit_char: "digit_value (digit_char k) = k mod 10"
  using residue_cases [of k] by (elim disjE) (simp_all add: digit_char_def digit_value_def)

lemma digit_char_zero: "(digit_char k = CHR ''0'') = (k mod 10 = 0)"
  using residue_cases [of k] by (elim disjE) (simp_all add: digit_char_def)

lemma digit_char_not_colon: "digit_char k \<noteq> CHR '':''"
  using residue_cases [of k] by (elim disjE) (simp_all add: digit_char_def)

lemma dec_digits_small: "n < 10 \<Longrightarrow> dec_digits n = [digit_char n]"
  by (simp add: dec_digits.simps)

lemma dec_digits_big: "10 \<le> n \<Longrightarrow> dec_digits n = dec_digits (n div 10) @ [digit_char n]"
  by (subst dec_digits.simps) simp

lemma dec_digits_not_Nil: "dec_digits n \<noteq> []"
  by (cases "n < 10") (simp_all add: dec_digits_small dec_digits_big)

lemma dec_value_snoc: "dec_value (s @ [c]) = 10 * dec_value s + digit_value c"
  by (simp add: dec_value_def)

lemma dec_value_dec_digits: "dec_value (dec_digits n) = n"
proof (induction n rule: dec_digits.induct)
  case (1 n)
  show ?case
  proof (cases "n < 10")
    case True
    then show ?thesis by (simp add: dec_digits_small dec_value_def digit_value_digit_char)
  next
    case False
    then have "dec_value (dec_digits (n div 10)) = n div 10" by (rule "1.IH")
    with False show ?thesis
      by (simp add: dec_digits_big dec_value_snoc digit_value_digit_char)
  qed
qed

lemma dec_digits_no_leading_zero: "0 < n \<Longrightarrow> hd (dec_digits n) \<noteq> CHR ''0''"
proof (induction n rule: dec_digits.induct)
  case (1 n)
  show ?case
  proof (cases "n < 10")
    case True
    with "1.prems" show ?thesis by (simp add: dec_digits_small digit_char_zero)
  next
    case False
    then have "0 < n div 10" by simp
    with False have "hd (dec_digits (n div 10)) \<noteq> CHR ''0''" by (rule "1.IH")
    with False show ?thesis by (simp add: dec_digits_big dec_digits_not_Nil)
  qed
qed

lemma dec_digits_no_colon: "CHR '':'' \<notin> set (dec_digits n)"
proof (induction n rule: dec_digits.induct)
  case (1 n)
  show ?case
  proof (cases "n < 10")
    case True
    then show ?thesis using digit_char_not_colon [of n] by (simp add: dec_digits_small)
  next
    case False
    then have "CHR '':'' \<notin> set (dec_digits (n div 10))" by (rule "1.IH")
    with False show ?thesis using digit_char_not_colon [of n] by (simp add: dec_digits_big)
  qed
qed

lemma dec_digits_length_2: "10 \<le> n \<Longrightarrow> n < 100 \<Longrightarrow> length (dec_digits n) = 2"
  by (simp add: dec_digits_big dec_digits_small)

lemma dec_digits_length_ge_3: "100 \<le> n \<Longrightarrow> 3 \<le> length (dec_digits n)"
proof -
  assume a: "100 \<le> n"
  then have "10 \<le> n div 10" by simp
  then have "dec_digits (n div 10) = dec_digits (n div 10 div 10) @ [digit_char (n div 10)]"
    by (rule dec_digits_big)
  moreover have "dec_digits n = dec_digits (n div 10) @ [digit_char n]" using a by (simp add: dec_digits_big)
  moreover have "1 \<le> length (dec_digits (n div 10 div 10))"
    using dec_digits_not_Nil [of "n div 10 div 10"] by (simp add: Suc_le_eq)
  ultimately show ?thesis by simp
qed

lemma py_fmt_02d_nonneg:
  "0 \<le> n \<Longrightarrow> py_fmt_02d n = (if n < 10 then CHR ''0'' # dec_digits (nat n) else dec_digits (nat n))"
proof -
  assume n: "0 \<le> n"
  show ?thesis
  proof (cases "n < 10")
    case True
    with n have "dec_digits (nat n) = [digit_char (nat n)]" by (simp add: dec_digits_small)
    with n True show ?thesis by (simp add: py_fmt_02d_def Let_def)
  next
    case False
    then have "10 \<le> nat n" by simp
    then have "2 \<le> length (dec_digits (nat n))"
      using dec_digits_not_Nil [of "nat n div 10"] by (simp add: dec_digits_big Suc_le_eq)
    with n False show ?thesis by (simp add: py_fmt_02d_def Let_def)
  qed
qed

lemma py_fmt_02d_minutes:
  "0 \<le> m \<Longrightarrow> m < 60 \<Longrightarrow> py_fmt_02d m = two_digits (nat m)"
proof (cases "m < 10")
  case True
  assume "0 \<le> m"
  with True have "nat m < 10" "nat m div 10 = 0" by simp_all
  moreover have "digit_char 0 = CHR ''0''" by (simp add: digit_char_def)
  ultimately show ?thesis using True \<open>0 \<le> m\<close>
    by (simp add: py_fmt_02d_nonneg two_digits_def dec_digits_small)
next
  case False
  assume "0 \<le> m" "m < 60"
  with False have "10 \<le> nat m" "nat m div 10 < 10" by simp_all
  then show ?thesis using False \<open>0 \<le> m\<close>
    by (simp add: py_fmt_02d_nonneg two_digits_def dec_digits_small dec_digits_big)
qed

lemma hours_of_minutes: "(d::int) div 60 div 60 = d div 3600"
  using zdiv_zmult2_eq [of 60 d 60] by simp

lemma seconds_split: "(d::int) mod 3600 = 60 * (d div 60 mod 60) + d mod 60"
  using zmod_zmult2_eq [of 60 d 60] by simp

lemma minutes_of_remainder: "((d::int) mod 3600) div 60 = d div 60 mod 60"
proof -
  have "(60 * (d div 60 mod 60) + d mod 60) div 60 = d div 60 mod 60"
  proof (rule int_div_pos_eq)
    show "60 * (d div 60 mod 60) + d mod 60 = 60 * (d div 60 mod 60) + d mod 60" by (rule refl)
    show "0 \<le> d mod 60" by simp
    show "d mod 60 < 60" by simp
  qed
  then show ?thesis by (simp only: seconds_split)
qed

lemma whole_minutes: "((d::int) - d mod 60) div 60 = d div 60"
proof -
  have "d - d mod 60 = 60 * (d div 60)" by (simp add: minus_mod_eq_mult_div)
  then show ?thesis by simp
qed

lemma floor_bounds:
  fixes d :: int
  shows "3600 * (d div 3600) + 60 * (d div 60 mod 60) \<le> d
       \<and> d < 3600 * (d div 3600) + 60 * (d div 60 mod 60) + 60"
proof -
  define h where "h = d div 3600"
  define r where "r = d mod 3600"
  define m where "m = d div 60 mod 60"
  define s where "s = d mod 60"
  have "d = 3600 * h + r" unfolding h_def r_def by (simp only: mult_div_mod_eq)
  moreover have "r = 60 * m + s" unfolding r_def m_def s_def by (rule seconds_split)
  moreover have "0 \<le> s" "s < 60" unfolding s_def by simp_all
  ultimately have "3600 * h + 60 * m \<le> d \<and> d < 3600 * h + 60 * m + 60" by simp
  then show ?thesis unfolding h_def m_def .
qed

lemma hours_below:
  fixes d :: int
  shows "(d div 3600 < 10) = (d < 36000)" and "(d div 3600 < 100) = (d < 360000)"
proof -
  define h where "h = d div 3600"
  define r where "r = d mod 3600"
  have "d = 3600 * h + r" unfolding h_def r_def by (simp only: mult_div_mod_eq)
  moreover have "0 \<le> r" "r < 3600" unfolding r_def by simp_all
  ultimately have "(h < 10) = (d < 36000)" "(h < 100) = (d < 360000)" by auto
  then show "(d div 3600 < 10) = (d < 36000)" and "(d div 3600 < 100) = (d < 360000)"
    unfolding h_def .
qed

subsection \<open>Reading a duration through the float\<close>

lemma scale_step: "0 < a \<Longrightarrow> a < 2 ^ 52 * d \<Longrightarrow> scale_to_53 a d k = scale_to_53 (2 * a) d (Suc k)"
  by (subst scale_to_53.simps) simp

lemma scale_stop: "\<not> (0 < a \<and> a < 2 ^ 52 * d) \<Longrightarrow> scale_to_53 a d k = (a, k)"
  by (subst scale_to_53.simps) auto

lemma scale_to_53_result:
  "0 < a \<Longrightarrow> 0 < d \<Longrightarrow> scale_to_53 a d k = (a', k')
     \<Longrightarrow> k \<le> k' \<and> a' = a * 2 ^ (k' - k) \<and> 2 ^ 52 * d \<le> a'"
proof (induction a d k rule: scale_to_53.induct)
  case (1 a d k)
  show ?case
  proof (cases "a < 2 ^ 52 * d")
    case True
    with "1.prems" have run: "scale_to_53 (2 * a) d (Suc k) = (a', k')"
      by (simp add: scale_step)
    from "1.prems"(1) True have "0 < a \<and> a < 2 ^ 52 * d" by simp
    moreover from "1.prems"(1) have "0 < 2 * a" by simp
    ultimately have ih: "Suc k \<le> k' \<and> a' = 2 * a * 2 ^ (k' - Suc k) \<and> 2 ^ 52 * d \<le> a'"
      using "1.prems"(2) run by (rule "1.IH")
    then have "Suc k \<le> k'" by simp
    then have "k' - k = Suc (k' - Suc k)" by arith
    then have "(2::nat) ^ (k' - k) = 2 * 2 ^ (k' - Suc k)" by simp
    with ih show ?thesis by simp
  next
    case False
    with "1.prems" have "a' = a" "k' = k" by (simp_all add: scale_stop)
    with False show ?thesis by simp
  qed
qed

lemma round_half_even_bounds:
  "a div d \<le> round_half_even a d \<and> round_half_even a d \<le> a div d + 1
   \<and> (round_half_even a d = a div d + 1 \<longrightarrow> d \<le> 2 * (a mod d))"
  by (simp add: round_half_even_def Let_def)

lemma nearest_keeps_floor:
  fixes n P m a :: nat
  assumes a: "a = n * P" and P: "500000 < P"
    and lo: "a div 1000000 \<le> m" and hi: "m \<le> a div 1000000 + 1"
    and up: "m = a div 1000000 + 1 \<longrightarrow> 1000000 \<le> 2 * (a mod 1000000)"
  shows "m div P = n div 1000000"
proof -
  define S where "S = n div 1000000"
  define f where "f = n mod 1000000"
  define q where "q = a div 1000000"
  define r where "r = a mod 1000000"
  define Y where "Y = S * P"
  define Z where "Z = f * P"
  have n: "n = 1000000 * S + f" unfolding S_def f_def by simp
  have "f \<le> 999999" unfolding f_def using mod_less_divisor [of 1000000 n] by simp
  then have "f * P \<le> 999999 * P" by (rule mult_le_mono1)
  then have Z: "Z + P \<le> 1000000 * P" unfolding Z_def by simp
  have "a = (1000000 * S + f) * P" unfolding a n ..
  then have aYZ: "a = 1000000 * Y + Z" unfolding Y_def Z_def by (simp add: algebra_simps)
  have aqr: "a = 1000000 * q + r" unfolding q_def r_def by simp
  have r: "r < 1000000" unfolding r_def by simp
  have lower: "Y \<le> m"
  proof -
    from aYZ aqr r have "Y \<le> q" by linarith
    with lo show ?thesis unfolding q_def by simp
  qed
  have upper: "m < Y + P"
  proof (cases "m = q + 1")
    case True
    with up have "1000000 \<le> 2 * r" unfolding q_def r_def by simp
    with aYZ aqr Z P True show ?thesis by linarith
  next
    case False
    with hi have "m \<le> q" unfolding q_def by simp
    moreover from aYZ aqr Z P have "q < Y + P" by linarith
    ultimately show ?thesis by simp
  qed
  have "m div P = S"
  proof (rule div_nat_eqI)
    show "P * S \<le> m" using lower unfolding Y_def by (simp add: mult.commute)
    show "m < P * Suc S" using upper unfolding Y_def by (simp add: mult.commute)
  qed
  then show ?thesis unfolding S_def .
qed

lemma doublings_enough:
  fixes n k :: nat
  assumes "n < 2 ^ 34 * 1000000" and "2 ^ 52 * 1000000 \<le> n * 2 ^ k"
  shows "500000 < (2::nat) ^ k"
proof -
  have "n * 2 ^ k < (2 ^ 34 * 1000000) * 2 ^ k"
    using assms(1) by (simp del: power_numeral)
  with assms(2) have "(2::nat) ^ 52 * 1000000 < (2 ^ 34 * 1000000) * 2 ^ k" by linarith
  then have "(2::nat) ^ 18 * (2 ^ 34 * 1000000) < 2 ^ k * (2 ^ 34 * 1000000)"
    by (simp add: mult.commute)
  then have "(2::nat) ^ 18 < 2 ^ k" by (simp only: mult_less_cancel2)
  then have "18 < k" by (simp only: power_strict_increasing_iff one_less_numeral_iff semiring_norm)
  then have "19 \<le> k" by simp
  then have "(2::nat) ^ 19 \<le> 2 ^ k" by (simp only: power_increasing_iff one_less_numeral_iff semiring_norm)
  then show ?thesis by simp
qed

lemma total_seconds_floor:
  assumes "0 \<le> delta" and "delta < 2 ^ 34 * 1000000"
  shows "py_int (total_seconds delta) = whole_seconds delta"
    and "py_int_floordiv_60 (total_seconds delta) = whole_seconds delta div 60"
proof -
  define n where "n = nat delta"
  obtain a k where run: "scale_to_53 n 1000000 0 = (a, k)" by (cases "scale_to_53 n 1000000 0")
  define m where "m = round_half_even a 1000000"
  have ts: "total_seconds delta = (sgn delta * int m, k)"
    using assms(1) run by (simp add: total_seconds_def int_true_div_def n_def m_def)
  have "m div 2 ^ k = n div 1000000"
  proof (cases "n = 0")
    case True
    with run have "a = 0" by (simp add: scale_stop)
    then have "m = 0" by (simp add: m_def round_half_even_def)
    with True show ?thesis by simp
  next
    case False
    then have "0 < n" by simp
    from scale_to_53_result [OF this _ run] have a: "a = n * 2 ^ k" and big: "2 ^ 52 * 1000000 \<le> a"
      by simp_all
    from assms have lt: "n < 2 ^ 34 * 1000000" unfolding n_def by (simp add: nat_less_iff)
    from big have "2 ^ 52 * 1000000 \<le> n * 2 ^ k" unfolding a .
    with lt have P: "500000 < (2::nat) ^ k" by (rule doublings_enough)
    from round_half_even_bounds [of a 1000000] show ?thesis
      unfolding m_def [symmetric] by (intro nearest_keeps_floor [OF a P]) simp_all
  qed
  then have "int m div 2 ^ k = int n div 1000000"
    by (metis of_nat_div of_nat_numeral of_nat_power)
  then have fl: "int m div 2 ^ k = delta div 1000000" using assms(1) by (simp add: n_def)
  have pos: "0 \<le> sgn delta * int m" using assms(1) by (simp add: sgn_if)
  have one: "sgn delta * int m = int m"
  proof (cases "delta = 0")
    case True
    then have "n = 0" by (simp add: n_def)
    with run have "a = 0" by (simp add: scale_stop)
    then have "m = 0" by (simp add: m_def round_half_even_def)
    then show ?thesis by simp
  next
    case False
    with assms(1) show ?thesis by (simp add: sgn_if)
  qed
  show "py_int (total_seconds delta) = whole_seconds delta"
    using fl by (simp add: ts py_int_def one whole_seconds_def)
  have "int m div (60 * 2 ^ k) = int m div 2 ^ k div 60"
    using zdiv_zmult2_eq [of 60 "int m" "2 ^ k"] by (simp add: mult.commute)
  then show "py_int_floordiv_60 (total_seconds delta) = whole_seconds delta div 60"
    using fl by (simp add: ts py_int_floordiv_60_def one whole_seconds_def)
qed

subsection \<open>The two renderings\<close>

lemma minute_floor_range:
  fixes x :: int
  assumes "0 \<le> x" and "x < 2 ^ 34 * 1000000"
  shows "0 \<le> x - x mod 60000000" and "x - x mod 60000000 < 2 ^ 34 * 1000000"
    and "whole_seconds (x - x mod 60000000) div 60 = whole_seconds x div 60"
proof -
  have m: "0 \<le> x mod 60000000" "x mod 60000000 < 60000000" by simp_all
  have eq: "x - x mod 60000000 = 60000000 * (x div 60000000)"
    by (simp add: minus_mod_eq_mult_div)
  from assms(1) have "0 \<le> x div 60000000" by (simp add: pos_imp_zdiv_nonneg_iff)
  then show "0 \<le> x - x mod 60000000" unfolding eq by simp
  from m(1) assms(2) show "x - x mod 60000000 < 2 ^ 34 * 1000000" by linarith
  have split: "\<And>y::int. y div 1000000 div 60 = y div 60000000"
    using zdiv_zmult2_eq [of 60 _ 1000000] by simp
  have "(x - x mod 60000000) div 60000000 = x div 60000000" unfolding eq by simp
  then show "whole_seconds (x - x mod 60000000) div 60 = whole_seconds x div 60"
    by (simp only: whole_seconds_def split)
qed

lemma format_duration_by_minutes:
  assumes "0 \<le> delta" and "delta < 2 ^ 34 * 1000000"
  shows "format_duration delta
     = py_str_int (whole_seconds delta div 60 div 60) @ ''h''
       @ py_fmt_02d (whole_seconds delta div 60 mod 60) @ ''m''"
  by (simp add: format_duration_def Let_def total_seconds_floor(1) [OF assms]
      minutes_of_remainder hours_of_minutes)

lemma format_hhmm_by_minutes:
  assumes "0 \<le> delta" and "delta < 2 ^ 34 * 1000000"
  shows "format_hhmm delta
     = py_fmt_02d (whole_seconds delta div 60 div 60) @ '':''
       @ py_fmt_02d (whole_seconds delta div 60 mod 60)"
  by (simp add: format_hhmm_def Let_def total_seconds_floor(2) [OF assms])

lemma format_duration_floor:
  assumes "0 \<le> delta" and "delta < 2 ^ 34 * 1000000"
  shows "format_duration (delta - delta mod 60000000) = format_duration delta"
  by (simp only: format_duration_by_minutes [OF assms]
      format_duration_by_minutes [OF minute_floor_range(1,2) [OF assms]]
      minute_floor_range(3) [OF assms])

lemma format_hhmm_floor:
  assumes "0 \<le> delta" and "delta < 2 ^ 34 * 1000000"
  shows "format_hhmm (delta - delta mod 60000000) = format_hhmm delta"
  by (simp only: format_hhmm_by_minutes [OF assms]
      format_hhmm_by_minutes [OF minute_floor_range(1,2) [OF assms]]
      minute_floor_range(3) [OF assms])

lemma two_digits_props: "n < 100 \<Longrightarrow> length (two_digits n) = 2 \<and> dec_value (two_digits n) = n"
proof -
  assume "n < 100"
  then have "n div 10 < 10" by simp
  then have "n div 10 mod 10 = n div 10" by simp
  then show ?thesis
    by (simp add: two_digits_def dec_value_def digit_value_digit_char)
qed

lemma hours_part_hhmm:
  assumes "0 \<le> delta" and "delta < 2 ^ 34 * 1000000"
  shows "hours_part (format_hhmm delta) = py_fmt_02d (whole_seconds delta div 3600)"
proof -
  let ?d = "whole_seconds delta"
  from assms(1) have "0 \<le> ?d" by (simp add: whole_seconds_def pos_imp_zdiv_nonneg_iff)
  then have h: "0 \<le> ?d div 3600" by (simp add: pos_imp_zdiv_nonneg_iff)
  have "\<forall>c \<in> set (py_fmt_02d (?d div 3600)). c \<noteq> CHR '':''"
    using dec_digits_no_colon [of "nat (?d div 3600)"] by (auto simp: py_fmt_02d_nonneg [OF h])
  then have "takeWhile (\<lambda>c. c \<noteq> CHR '':'') (py_fmt_02d (?d div 3600)) = py_fmt_02d (?d div 3600)"
    by (simp add: takeWhile_eq_all_conv)
  moreover have "takeWhile (\<lambda>c. c \<noteq> CHR '':'')
        (py_fmt_02d (?d div 3600) @ CHR '':'' # py_fmt_02d (?d div 60 mod 60))
      = takeWhile (\<lambda>c. c \<noteq> CHR '':'') (py_fmt_02d (?d div 3600))"
    by (rule takeWhile_tail) simp
  ultimately show ?thesis
    by (simp add: hours_part_def format_hhmm_by_minutes [OF assms] hours_of_minutes)
qed

lemma whole_seconds_bounds:
  "whole_seconds delta * 1000000 \<le> delta \<and> delta < (whole_seconds delta + 1) * 1000000"
proof -
  define q where "q = delta div 1000000"
  define r where "r = delta mod 1000000"
  have "delta = q * 1000000 + r" unfolding q_def r_def by (simp only: div_mult_mod_eq)
  moreover have "0 \<le> r" "r < 1000000" unfolding r_def by simp_all
  ultimately have "q * 1000000 \<le> delta \<and> delta < (q + 1) * 1000000" by simp
  then show ?thesis unfolding q_def whole_seconds_def .
qed

text \<open>
  Claim C8, as amended. For every non-negative duration below \<open>2 ^ 34\<close> seconds (about
  544 years), \<open>format_duration\<close> is the hours in decimal without padding (no leading zero
  from one hour on, the single digit 0 below one hour), the letter h, the minutes in
  exactly two digits and the letter m; \<open>format_hhmm\<close> is the hours padded with zeros to at
  least two digits, a colon and the minutes in exactly two digits. The hours of
  \<open>format_hhmm\<close> have exactly two digits for a duration below 100 hours and three digits
  or more from 100 hours on. In both renderings the hours and the minutes are those of
  the whole seconds \<open>d\<close> of the duration, \<open>d div 3600\<close> and \<open>d div 60 mod 60\<close>: what lies
  beyond the whole minute is dropped, never rounded up, so a duration and the same
  duration cut to the whole minute render alike.
\<close>

theorem format_durations_floor_to_minute:
  assumes "0 \<le> delta" and "delta < 2 ^ 34 * 1000000"
  shows "format_duration delta
           = dec_digits (nat (whole_seconds delta div 3600)) @ ''h''
             @ two_digits (nat (whole_seconds delta div 60 mod 60)) @ ''m''
     \<and> format_hhmm delta
           = (if whole_seconds delta < 36000
              then CHR ''0'' # dec_digits (nat (whole_seconds delta div 3600))
              else dec_digits (nat (whole_seconds delta div 3600)))
             @ '':'' @ two_digits (nat (whole_seconds delta div 60 mod 60))
     \<and> dec_value (dec_digits (nat (whole_seconds delta div 3600)))
           = nat (whole_seconds delta div 3600)
     \<and> (3600 \<le> whole_seconds delta \<longrightarrow>
           hd (dec_digits (nat (whole_seconds delta div 3600))) \<noteq> CHR ''0'')
     \<and> (whole_seconds delta < 3600 \<longrightarrow>
           dec_digits (nat (whole_seconds delta div 3600)) = ''0'')
     \<and> length (two_digits (nat (whole_seconds delta div 60 mod 60))) = 2
     \<and> dec_value (two_digits (nat (whole_seconds delta div 60 mod 60)))
           = nat (whole_seconds delta div 60 mod 60)
     \<and> (whole_seconds delta < 360000 \<longrightarrow> length (hours_part (format_hhmm delta)) = 2)
     \<and> (360000 \<le> whole_seconds delta \<longrightarrow> 3 \<le> length (hours_part (format_hhmm delta)))
     \<and> (3600 * (whole_seconds delta div 3600) + 60 * (whole_seconds delta div 60 mod 60))
           * 1000000 \<le> delta
     \<and> delta < (3600 * (whole_seconds delta div 3600)
                  + 60 * (whole_seconds delta div 60 mod 60) + 60) * 1000000
     \<and> format_duration (delta - delta mod 60000000) = format_duration delta
     \<and> format_hhmm (delta - delta mod 60000000) = format_hhmm delta"
proof -
  define d where "d = whole_seconds delta"
  from assms(1) have d0: "0 \<le> d" by (simp add: d_def whole_seconds_def pos_imp_zdiv_nonneg_iff)
  then have h: "0 \<le> d div 3600" by (simp add: pos_imp_zdiv_nonneg_iff)
  have m: "0 \<le> d div 60 mod 60" "d div 60 mod 60 < 60" by simp_all
  then have mnat: "nat (d div 60 mod 60) < 100" by simp
  have long: "format_duration delta
           = dec_digits (nat (d div 3600)) @ ''h'' @ two_digits (nat (d div 60 mod 60)) @ ''m''"
    using h by (simp add: format_duration_by_minutes [OF assms] py_str_int_def
        py_fmt_02d_minutes [OF m] hours_of_minutes flip: d_def)
  have clock: "format_hhmm delta
           = (if d < 36000 then CHR ''0'' # dec_digits (nat (d div 3600))
              else dec_digits (nat (d div 3600)))
             @ '':'' @ two_digits (nat (d div 60 mod 60))"
    by (simp add: format_hhmm_by_minutes [OF assms] py_fmt_02d_nonneg [OF h]
        py_fmt_02d_minutes [OF m] hours_below hours_of_minutes flip: d_def)
  have value_h: "dec_value (dec_digits (nat (d div 3600))) = nat (d div 3600)"
    by (rule dec_value_dec_digits)
  have nopad: "3600 \<le> d \<longrightarrow> hd (dec_digits (nat (d div 3600))) \<noteq> CHR ''0''"
  proof
    assume "3600 \<le> d"
    then have "1 \<le> d div 3600" by (simp add: pos_imp_zdiv_pos_iff)
    then have "0 < nat (d div 3600)" by simp
    then show "hd (dec_digits (nat (d div 3600))) \<noteq> CHR ''0''"
      by (rule dec_digits_no_leading_zero)
  qed
  have zero_h: "d < 3600 \<longrightarrow> dec_digits (nat (d div 3600)) = ''0''"
  proof
    assume "d < 3600"
    with d0 have "d div 3600 = 0" by simp
    then show "dec_digits (nat (d div 3600)) = ''0''"
      by (simp add: dec_digits_small digit_char_def)
  qed
  have hp: "hours_part (format_hhmm delta) = py_fmt_02d (d div 3600)"
    unfolding d_def by (rule hours_part_hhmm [OF assms])
  have two_h: "d < 360000 \<longrightarrow> length (hours_part (format_hhmm delta)) = 2"
  proof
    assume "d < 360000"
    then have lt: "d div 3600 < 100" by (simp add: hours_below)
    show "length (hours_part (format_hhmm delta)) = 2"
    proof (cases "d div 3600 < 10")
      case True
      with h show ?thesis
        by (simp add: hp py_fmt_02d_nonneg [OF h] dec_digits_small)
    next
      case False
      with lt have "10 \<le> nat (d div 3600)" "nat (d div 3600) < 100" by simp_all
      then have "length (dec_digits (nat (d div 3600))) = 2" by (rule dec_digits_length_2)
      with False show ?thesis
        by (simp add: hp py_fmt_02d_nonneg [OF h])
    qed
  qed
  have three_h: "360000 \<le> d \<longrightarrow> 3 \<le> length (hours_part (format_hhmm delta))"
  proof
    assume "360000 \<le> d"
    then have ge: "\<not> d div 3600 < 100" by (simp add: hours_below)
    then have "100 \<le> nat (d div 3600)" by simp
    then have "3 \<le> length (dec_digits (nat (d div 3600)))" by (rule dec_digits_length_ge_3)
    moreover from ge have "\<not> d div 3600 < 10" by simp
    ultimately show "3 \<le> length (hours_part (format_hhmm delta))"
      by (simp add: hp py_fmt_02d_nonneg [OF h])
  qed
  have bounds: "(3600 * (d div 3600) + 60 * (d div 60 mod 60)) * 1000000 \<le> delta
      \<and> delta < (3600 * (d div 3600) + 60 * (d div 60 mod 60) + 60) * 1000000"
  proof -
    define H where "H = d div 3600"
    define M where "M = d div 60 mod 60"
    from floor_bounds [of d] have f: "3600 * H + 60 * M \<le> d" "d < 3600 * H + 60 * M + 60"
      unfolding H_def M_def by simp_all
    from whole_seconds_bounds [of delta]
    have w: "d * 1000000 \<le> delta" "delta < (d + 1) * 1000000"
      unfolding d_def by simp_all
    from f(1) have "(3600 * H + 60 * M) * 1000000 \<le> d * 1000000" by simp
    from this w(1) have lo: "(3600 * H + 60 * M) * 1000000 \<le> delta" by (rule order_trans)
    from f(2) have "d + 1 \<le> 3600 * H + 60 * M + 60" by simp
    then have "(d + 1) * 1000000 \<le> (3600 * H + 60 * M + 60) * 1000000" by simp
    with w(2) have hi: "delta < (3600 * H + 60 * M + 60) * 1000000" by (rule less_le_trans)
    from lo hi show ?thesis unfolding H_def M_def by simp
  qed
  note two_digits_props [OF mnat] format_duration_floor [OF assms] format_hhmm_floor [OF assms]
  with long clock value_h nopad zero_h two_h three_h bounds show ?thesis
    unfolding d_def by blast
qed

theorem format_durations_floor_to_minute_witness:
  "(0::int) \<le> 5399999999 \<and> (5399999999::int) < 2 ^ 34 * 1000000
   \<and> whole_seconds 5399999999 = 5399
   \<and> format_duration 5399999999 = ''1h29m'' \<and> format_hhmm 5399999999 = ''01:29''
   \<and> hours_part (format_hhmm 5399999999) = ''01''"
proof -
  have w: "whole_seconds 5399999999 = 5399" by (simp add: whole_seconds_def)
  have v: "dec_digits (nat (5399 div 3600)) = ''1''" "two_digits (nat (5399 div 60 mod 60)) = ''29''"
    by (simp_all add: dec_digits_small two_digits_def digit_char_def)
  from format_durations_floor_to_minute [of 5399999999]
  have "format_duration 5399999999 = ''1h29m'' \<and> format_hhmm 5399999999 = ''01:29''"
    unfolding w v by simp
  with w show ?thesis by (simp add: hours_part_def)
qed

text \<open>
  The claim as first stated, for every non-negative duration, with two-digit hours in
  \<open>format_hhmm\<close> and no rounding up, fails twice. A duration of 100 hours is rendered
  \<open>100:00\<close>. And \<^verbatim>\<open>timedelta(days=219000, seconds=59, microseconds=999999)\<close>, which is
  5256000 hours, 0 minutes and 59.999999 seconds, is at least \<open>2 ^ 34\<close> seconds: there
  the binary64 numbers are more than a microsecond apart, \<^verbatim>\<open>total_seconds()\<close> returns
  18921600060.0 and both renderings show minute 01.
\<close>

lemma total_seconds_100_hours: "total_seconds 360000000000 = (6184752906240000, 34)"
  by (simp add: total_seconds_def int_true_div_def scale_step scale_stop round_half_even_def)

lemma total_seconds_rounded_up: "total_seconds 18921600059999999 = (4960183926128640, 18)"
  by (simp add: total_seconds_def int_true_div_def scale_step scale_stop round_half_even_def)

theorem format_two_digit_hours_and_floor_counterexample:
  "format_hhmm 360000000000 = ''100:00''
   \<and> length (hours_part (format_hhmm 360000000000)) \<noteq> 2
   \<and> whole_seconds 18921600059999999 = 18921600059
   \<and> 18921600059 div 60 mod 60 = (0::int)
   \<and> format_duration 18921600059999999 = ''5256000h01m''
   \<and> format_hhmm 18921600059999999 = ''5256000:01''"
proof -
  have d3: "dec_digits 100 = ''100''"
    by (simp add: dec_digits_big dec_digits_small digit_char_def)
  have d0: "dec_digits 0 = ''0''" "dec_digits (Suc 0) = ''1''"
    by (simp_all add: dec_digits_small digit_char_def)
  have d7: "dec_digits 5256000 = ''5256000''"
    by (simp add: dec_digits_big dec_digits_small digit_char_def)
  have a: "format_hhmm 360000000000 = ''100:00''"
    by (simp add: format_hhmm_def total_seconds_100_hours py_int_floordiv_60_def
        py_fmt_02d_def Let_def d3 d0)
  have b: "format_duration 18921600059999999 = ''5256000h01m''"
    by (simp add: format_duration_def total_seconds_rounded_up py_int_def py_str_int_def
        py_fmt_02d_def Let_def d7 d0)
  have c: "format_hhmm 18921600059999999 = ''5256000:01''"
    by (simp add: format_hhmm_def total_seconds_rounded_up py_int_floordiv_60_def
        py_fmt_02d_def Let_def d7 d0)
  from a b c show ?thesis by (simp add: hours_part_def whole_seconds_def)
qed

end
